theory Spec2Isabelle
  imports Main "HOL-Library.Sublist" "HOL-Library.Word"
begin

section \<open>The shell pipeline \<open>ono-selfie.sh\<close>: mode selection and prompt construction\<close>

subsection \<open>Case-insensitive keyword search (\<open>grep -qiE\<close>)\<close>

text \<open>
  The script pipes \<open>echo "$USER_CONTEXT"\<close> into \<open>grep -qiE "k1|k2|..."\<close>. The pattern is
  an alternation of literal keywords, so it is kept as the list of its alternatives.
  \<open>grep\<close> reads its input line by line and succeeds when some line has a match.

  With \<open>-i\<close> two characters match when they are in the same case class, and which
  characters share a class depends on the locale of the run: in the C locale only the
  ASCII letters are paired, in a UTF-8 locale U+017F (long s) is in the class of \<open>s\<close>
  and U+0131 (dotless i) in the class of \<open>i\<close>, among others. The locale is therefore a
  parameter of the model, as its case fold: the function that replaces every character
  of a text by the representative of its class, so that a literal matches in a line when
  the folded literal occurs in the folded line.
\<close>

type_synonym case_fold = "string \<Rightarrow> string"

definition newline :: char where
  "newline = CHR 0x0A"

text \<open>The fold of the C locale: the ASCII capitals go to their small letters.\<close>

definition lower_char :: "char \<Rightarrow> char" where
  "lower_char c =
     (let n = (of_char c :: nat) in if 65 \<le> n \<and> n \<le> 90 then char_of (n + 32) else c)"

definition lower :: case_fold where
  "lower s = map lower_char s"

text \<open>
  A fold with two of the further classes of a UTF-8 locale: the two bytes of U+017F fold
  to \<open>s\<close>, the two bytes of U+0131 to \<open>i\<close>, and the ASCII letters as in the C locale.
\<close>

fun fold_utf8_sample :: case_fold where
  "fold_utf8_sample (a # b # cs) =
     (if a = CHR 0xC5 \<and> b = CHR 0xBF then CHR ''s'' # fold_utf8_sample cs
      else if a = CHR 0xC4 \<and> b = CHR 0xB1 then CHR ''i'' # fold_utf8_sample cs
      else lower_char a # fold_utf8_sample (b # cs))"
| "fold_utf8_sample [a] = [lower_char a]"
| "fold_utf8_sample [] = []"

text \<open>
  What the results below ask of a locale: folding goes character by character, so it
  respects the cut of a text at a newline, and the newline is alone in its class.
\<close>

definition line_wise :: "case_fold \<Rightarrow> bool" where
  "line_wise cf \<longleftrightarrow>
     (\<forall>a b. cf (a @ newline # b) = cf a @ newline # cf b)
     \<and> (\<forall>k. newline \<notin> set k \<longrightarrow> newline \<notin> set (cf k))"

text \<open>A locale that folds a text of ASCII characters as the C locale does.\<close>

definition ascii :: "string \<Rightarrow> bool" where
  "ascii t = list_all (\<lambda>c. (of_char c :: nat) < 128) t"

definition folds_ascii_as_C :: "case_fold \<Rightarrow> bool" where
  "folds_ascii_as_C cf \<longleftrightarrow> (\<forall>t. ascii t \<longrightarrow> cf t = lower t)"

text \<open>The lines of \<open>echo "$s"\<close>: the text \<open>s\<close> cut at every newline.\<close>

function split_lines :: "string \<Rightarrow> string list" where
  "split_lines s =
     (case dropWhile (\<lambda>c. c \<noteq> newline) s of
        [] \<Rightarrow> [takeWhile (\<lambda>c. c \<noteq> newline) s]
      | _ # r \<Rightarrow> takeWhile (\<lambda>c. c \<noteq> newline) s # split_lines r)"
  by pat_completeness auto
termination
proof (relation "measure length")
  fix s :: string and x r
  assume "dropWhile (\<lambda>c. c \<noteq> newline) s = x # r"
  then have "length (x # r) \<le> length s"
    by (metis length_dropWhile_le)
  then show "(r, s) \<in> measure length" by simp
qed simp

declare split_lines.simps [simp del]

definition line_matches :: "case_fold \<Rightarrow> string list \<Rightarrow> string \<Rightarrow> bool" where
  "line_matches cf alts l = list_ex (\<lambda>k. sublist (cf k) (cf l)) alts"

definition grep_qiE :: "case_fold \<Rightarrow> string list \<Rightarrow> string \<Rightarrow> bool" where
  "grep_qiE cf alts s = list_ex (line_matches cf alts) (split_lines s)"

subsection \<open>Auto-detection of the mode (script lines 23--33)\<close>

definition mirror_alternatives :: "string list" where
  "mirror_alternatives =
     [''outfit'', ''wearing'', ''clothes'', ''dress'', ''suit'', ''fashion'',
      ''full-body'', ''mirror'']"

definition direct_alternatives :: "string list" where
  "direct_alternatives =
     [''cafe'', ''restaurant'', ''beach'', ''park'', ''city'', ''close-up'',
      ''portrait'', ''face'', ''eyes'', ''smile'']"

definition auto_detect :: "case_fold \<Rightarrow> string \<Rightarrow> string" where
  "auto_detect cf USER_CONTEXT =
     (if grep_qiE cf mirror_alternatives USER_CONTEXT then ''mirror''
      else if grep_qiE cf direct_alternatives USER_CONTEXT then ''direct''
      else ''mirror'')"

text \<open>
  \<open>MODE="${3:-auto}"\<close>: an unset or empty third argument means \<open>auto\<close>; only the exact
  word \<open>auto\<close> triggers the detection, any other word is kept as it is. An unset
  positional parameter expands to the empty text.
\<close>

definition param_default :: "string \<Rightarrow> string \<Rightarrow> string" where
  "param_default v d = (if v = [] then d else v)"

definition select_mode :: "case_fold \<Rightarrow> string \<Rightarrow> string \<Rightarrow> string" where
  "select_mode cf MODE USER_CONTEXT =
     (if MODE = ''auto'' then auto_detect cf USER_CONTEXT else MODE)"

subsection \<open>Prompt construction (script lines 35--45)\<close>

definition BASE_DESCRIPTION :: string where
  "BASE_DESCRIPTION = ''a young woman with long dark hair''"

definition GEN_PROMPT :: "string \<Rightarrow> string \<Rightarrow> string" where
  "GEN_PROMPT MODE USER_CONTEXT =
     (if MODE = ''direct''
      then ''a photorealistic close-up selfie of '' @ BASE_DESCRIPTION @ '' at '' @ USER_CONTEXT
           @ '', direct eye contact with the camera, looking straight into the lens, ''
           @ ''eyes centered and clearly visible, phone held at arm's length, ''
           @ ''face fully visible, 8k, highly detailed''
      else ''a photorealistic mirror selfie of '' @ BASE_DESCRIPTION @ '', '' @ USER_CONTEXT
           @ '', full body shot, detailed background, 8k, highly detailed'')"


section \<open>Base64\<close>

type_synonym byte = "8 word"

text \<open>
  Modelled from the spec: the encoding side of the round trip (``bytes encoded to
  base64'') is done by the image service, not by this repository; it is the standard
  alphabet of RFC 4648 with \<open>=\<close> padding.
\<close>

definition enc_char :: "nat \<Rightarrow> char" where
  "enc_char n =
     (if n < 26 then char_of (65 + n)
      else if n < 52 then char_of (71 + n)
      else if n < 62 then char_of (n - 4)
      else if n = 62 then CHR ''+'' else CHR ''/'')"

fun base64_encode :: "byte list \<Rightarrow> string" where
  "base64_encode (x # y # z # rest) =
     [enc_char (unat x div 4),
      enc_char ((unat x mod 4) * 16 + unat y div 16),
      enc_char ((unat y mod 16) * 4 + unat z div 64),
      enc_char (unat z mod 64)] @ base64_encode rest"
| "base64_encode [x, y] =
     [enc_char (unat x div 4),
      enc_char ((unat x mod 4) * 16 + unat y div 16),
      enc_char ((unat y mod 16) * 4), CHR ''='']"
| "base64_encode [x] =
     [enc_char (unat x div 4), enc_char ((unat x mod 4) * 16), CHR ''='', CHR ''='']"
| "base64_encode [] = []"

text \<open>The same encoding in two parts: the six-bit values, and the padding after them.\<close>

fun sextet_values :: "byte list \<Rightarrow> nat list" where
  "sextet_values (x # y # z # rest) =
     [unat x div 4, (unat x mod 4) * 16 + unat y div 16,
      (unat y mod 16) * 4 + unat z div 64, unat z mod 64] @ sextet_values rest"
| "sextet_values [x, y] =
     [unat x div 4, (unat x mod 4) * 16 + unat y div 16, (unat y mod 16) * 4]"
| "sextet_values [x] = [unat x div 4, (unat x mod 4) * 16]"
| "sextet_values [] = []"

fun padding :: "byte list \<Rightarrow> string" where
  "padding (x # y # z # rest) = padding rest"
| "padding [x, y] = ''=''"
| "padding [x] = ''==''"
| "padding [] = []"

text \<open>
  The value of a character in the decoders. \<open>unbase64\<close> is the table of Node's
  \<open>'base64'\<close> encoding, which also takes the URL-safe \<open>-\<close> and \<open>_\<close>;
  \<open>isbase64\<close> is the standard alphabet only, as \<open>base64 --decode\<close> takes it.
\<close>

definition unbase64 :: "char \<Rightarrow> nat option" where
  "unbase64 c =
     (let n = (of_char c :: nat) in
      if 65 \<le> n \<and> n \<le> 90 then Some (n - 65)
      else if 97 \<le> n \<and> n \<le> 122 then Some (n - 71)
      else if 48 \<le> n \<and> n \<le> 57 then Some (n + 4)
      else if c = CHR ''+'' \<or> c = CHR ''-'' then Some 62
      else if c = CHR ''/'' \<or> c = CHR ''_'' then Some 63
      else None)"

definition isbase64 :: "char \<Rightarrow> bool" where
  "isbase64 c \<longleftrightarrow> unbase64 c \<noteq> None \<and> c \<noteq> CHR ''-'' \<and> c \<noteq> CHR ''_''"

text \<open>Four six-bit values give three bytes; a last group of three gives two, of two one.\<close>

fun decode_groups :: "nat list \<Rightarrow> byte list" where
  "decode_groups (a # b # c # d # rest) =
     [of_nat (a * 4 + b div 16), of_nat ((b mod 16) * 16 + c div 4), of_nat ((c mod 4) * 64 + d)]
     @ decode_groups rest"
| "decode_groups [a, b, c] = [of_nat (a * 4 + b div 16), of_nat ((b mod 16) * 16 + c div 4)]"
| "decode_groups [a, b] = [of_nat (a * 4 + b div 16)]"
| "decode_groups _ = []"

text \<open>
  Node's decoder behind \<open>fs.writeFileSync(file, text, 'base64')\<close>: it is lenient, a
  character outside the alphabet (white space, say) is skipped, and the first \<open>=\<close> ends
  the data.
\<close>

fun sextets :: "string \<Rightarrow> nat list" where
  "sextets [] = []"
| "sextets (c # cs) =
     (case unbase64 c of
        Some v \<Rightarrow> v # sextets cs
      | None \<Rightarrow> if c = CHR ''='' then [] else sextets cs)"

definition node_base64_decode :: "string \<Rightarrow> byte list" where
  "node_base64_decode s = decode_groups (sextets s)"

text \<open>
  \<open>base64 --decode\<close> of GNU coreutils, on a well-formed text: newlines are dropped, the
  rest is groups of four characters of the standard alphabet, the last group padded with
  \<open>=\<close>. \<open>None\<close> stands for any other input, on which the tool reports invalid input
  and what it leaves in the file is not modelled.
\<close>

definition gnu_base64_decode :: "string \<Rightarrow> byte list option" where
  "gnu_base64_decode s =
     (let cs = filter (\<lambda>c. c \<noteq> newline) s;
          body = takeWhile (\<lambda>c. c \<noteq> CHR ''='') cs;
          pad = dropWhile (\<lambda>c. c \<noteq> CHR ''='') cs
      in if length cs mod 4 = 0 \<and> list_all isbase64 body
            \<and> (pad = [] \<or> pad = ''='' \<or> pad = ''=='')
         then Some (decode_groups (map (\<lambda>c. the (unbase64 c)) body))
         else None)"

section \<open>The TypeScript pipeline \<open>ono-selfie.ts\<close>\<close>

subsection \<open>Data\<close>

record OnoImageInput =
  prompt :: string
  num_images :: "int option"
  aspect_ratio :: "string option"
  output_format :: "string option"

text \<open>The JSON body of the generation request.\<close>

record Payload =
  instances_prompt :: string
  sampleCount :: int
  aspectRatio :: string
  outputOptions_mimeType :: string

text \<open>
  The JSON of the generation response, in the shape the code reads:
  \<open>{predictions: [{bytesBase64Encoded, mimeType?}]}\<close>, every field possibly absent.
\<close>

record Prediction =
  bytesBase64Encoded :: "string option"
  mimeType :: "string option"

record ResponseData =
  predictions :: "Prediction list option"

text \<open>
  What \<open>fetch\<close> resolves to. \<open>body_json = None\<close> stands for a body on which
  \<open>response.json()\<close> rejects.
\<close>

record Response =
  ok :: bool
  status :: nat
  statusText :: string
  body_text :: string
  body_json :: "ResponseData option"

record OpenClawMessage =
  action :: string
  channel :: string
  message :: string
  media :: "string option"

record GenerateAndSendOptions =
  opt_prompt :: string
  opt_channel :: string
  caption :: "string option"
  opt_aspectRatio :: "string option"
  outputFormat :: "string option"
  useOpenClawCLI :: "bool option"

record Result =
  success :: bool
  imageUrl :: string
  res_channel :: string
  res_prompt :: string

text \<open>
  The errors thrown: the three \<open>throw new Error\<close> of the code and the rejections of the
  platform calls (\<open>fetch\<close>, \<open>response.json\<close>, \<open>writeFileSync\<close>, \<open>execAsync\<close>).
\<close>

datatype error =
    ApiKeyNotSet
  | ImageGenerationFailed nat string string
  | NoPredictions
  | OpenClawSendFailed string
  | FetchRejected
  | JsonRejected
  | WriteRejected
  | ExecRejected

text \<open>
  The effects on the outside world, in the order they happen. Console output is not
  recorded.
\<close>

datatype event =
    HttpPostGenerate string Payload
  | WriteFileSync string "byte list"
  | ExecAsync string
  | HttpPostGateway string "(string \<times> string) list" OpenClawMessage
  | Base64DecodeTo string string
  | Openclaw "string list"

text \<open>
  The outside world of one run: the environment variables, the clock, and how the
  services answer (\<open>None\<close> from a \<open>fetch\<close> is a rejected promise; \<open>False\<close> from
  \<open>writeFileSync_ok\<close> or \<open>execAsync_ok\<close> is a throw or a non-zero exit).
\<close>

record world =
  GEMINI_API_KEY :: "string option"
  OPENCLAW_GATEWAY_URL :: "string option"
  OPENCLAW_GATEWAY_TOKEN :: "string option"
  Date_now :: nat
  fetch_generate :: "string \<Rightarrow> Payload \<Rightarrow> Response option"
  writeFileSync_ok :: "string \<Rightarrow> bool"
  execAsync_ok :: "string \<Rightarrow> bool"
  fetch_gateway :: "string \<Rightarrow> (string \<times> string) list \<Rightarrow> OpenClawMessage \<Rightarrow> Response option"

subsection \<open>JavaScript string primitives\<close>

text \<open>\<open>a || b\<close> on an optional string: absent and empty are both falsy.\<close>

definition or_else :: "string option \<Rightarrow> string \<Rightarrow> string" where
  "or_else a b = (case a of None \<Rightarrow> b | Some v \<Rightarrow> if v = [] then b else v)"

text \<open>A value inside a template literal: an absent one prints as \<open>undefined\<close>.\<close>

definition template :: "string option \<Rightarrow> string" where
  "template a = (case a of None \<Rightarrow> ''undefined'' | Some v \<Rightarrow> v)"

definition startsWith :: "string \<Rightarrow> string \<Rightarrow> bool" where
  "startsWith s p = (take (length p) s = p)"

fun indexOf :: "string \<Rightarrow> char \<Rightarrow> int" where
  "indexOf [] c = -1"
| "indexOf (x # xs) c = (if x = c then 0 else let i = indexOf xs c in if i < 0 then -1 else i + 1)"

text \<open>\<open>substring\<close> clamps both indices to the text and swaps them when out of order.\<close>

definition substring :: "string \<Rightarrow> int \<Rightarrow> int \<Rightarrow> string" where
  "substring s a b =
     (let len = int (length s);
          a' = max 0 (min a len);
          b' = max 0 (min b len);
          lo = min a' b';
          hi = max a' b'
      in take (nat (hi - lo)) (drop (nat lo) s))"

definition digit_char :: "nat \<Rightarrow> char" where
  "digit_char d = ''0123456789'' ! d"

function show_nat :: "nat \<Rightarrow> string" where
  "show_nat n = (if n < 10 then [digit_char n] else show_nat (n div 10) @ [digit_char (n mod 10)])"
  by pat_completeness auto
termination
  by (relation "measure id") auto

declare show_nat.simps [simp del]

text \<open>\<open>\w\<close> of a regular expression: letters, digits and the underscore.\<close>

definition word_char :: "char \<Rightarrow> bool" where
  "word_char c =
     (let n = (of_char c :: nat) in
      (65 \<le> n \<and> n \<le> 90) \<or> (97 \<le> n \<and> n \<le> 122) \<or> (48 \<le> n \<and> n \<le> 57) \<or> c = CHR ''_'')"

text \<open>
  \<open>mediaContent.replace(/^data:image\/\w+;base64,/, "")\<close>: the prefix is removed when
  the text starts with \<open>data:image/\<close>, one or more word characters and \<open>;base64,\<close>;
  otherwise the text is unchanged. The run of word characters is the longest one, as
  \<open>;\<close> is not a word character.
\<close>

definition strip_data_url_prefix :: "string \<Rightarrow> string" where
  "strip_data_url_prefix s =
     (if startsWith s ''data:image/''
      then let r = drop (length ''data:image/'') s;
               w = takeWhile word_char r;
               r' = dropWhile word_char r
           in if w \<noteq> [] \<and> startsWith r' '';base64,''
              then drop (length '';base64,'') r' else s
      else s)"

subsection \<open>\<open>generateImage\<close>\<close>

definition endpoint :: "string \<Rightarrow> string" where
  "endpoint apiKey =
     ''https://generativelanguage.googleapis.com/v1beta/models/imagen-4.0-fast-generate-001:predict?key=''
     @ apiKey"

definition payload :: "OnoImageInput \<Rightarrow> Payload" where
  "payload input =
     \<lparr> instances_prompt = prompt input,
       sampleCount = (case num_images input of None \<Rightarrow> 1 | Some n \<Rightarrow> if n = 0 then 1 else n),
       aspectRatio = or_else (aspect_ratio input) ''1:1'',
       outputOptions_mimeType =
         (if output_format input = Some ''png'' then ''image/png'' else ''image/jpeg'') \<rparr>"

definition generateImage :: "world \<Rightarrow> OnoImageInput \<Rightarrow> event list \<times> (error + string)" where
  "generateImage w input =
     (let apiKey = or_else (GEMINI_API_KEY w) [] in
      if apiKey = [] then ([], Inl ApiKeyNotSet)
      else
        let request = [HttpPostGenerate (endpoint apiKey) (payload input)] in
        case fetch_generate w (endpoint apiKey) (payload input) of
          None \<Rightarrow> (request, Inl FetchRejected)
        | Some response \<Rightarrow>
            if \<not> ok response
            then (request, Inl (ImageGenerationFailed (status response) (statusText response)
                                  (body_text response)))
            else
              (case body_json response of
                 None \<Rightarrow> (request, Inl JsonRejected)
               | Some data \<Rightarrow>
                   (case predictions data of
                      None \<Rightarrow> (request, Inl NoPredictions)
                    | Some [] \<Rightarrow> (request, Inl NoPredictions)
                    | Some (first # _) \<Rightarrow>
                        let base64Image = bytesBase64Encoded first;
                            mimeType = or_else (mimeType first)
                              (if output_format input = Some ''png'' then ''image/png''
                               else ''image/jpeg'')
                        in (request,
                            Inr (''data:'' @ mimeType @ '';base64,'' @ template base64Image)))))"

subsection \<open>\<open>sendViaOpenClaw\<close>\<close>

definition tempFile_of :: "world \<Rightarrow> string \<Rightarrow> string" where
  "tempFile_of w mediaContent =
     (let ext = substring mediaContent (indexOf mediaContent CHR ''/'' + 1)
                  (indexOf mediaContent CHR '';'')
      in ''/tmp/ono-selfie-'' @ show_nat (Date_now w) @ ''.'' @ ext)"

definition cli_command :: "OpenClawMessage \<Rightarrow> string option \<Rightarrow> string" where
  \<open>cli_command msg mediaArg =
     ''openclaw message send --action send --channel "'' @ channel msg
     @ ''" --message "'' @ message msg @ ''" --media "'' @ template mediaArg @ ''"''\<close>

definition gateway_url :: "world \<Rightarrow> string" where
  "gateway_url w = or_else (OPENCLAW_GATEWAY_URL w) ''http://localhost:18789'' @ ''/message''"

definition gateway_headers :: "world \<Rightarrow> (string \<times> string) list" where
  "gateway_headers w =
     [(''Content-Type'', ''application/json'')]
     @ (case OPENCLAW_GATEWAY_TOKEN w of
          None \<Rightarrow> []
        | Some t \<Rightarrow> if t = [] then [] else [(''Authorization'', ''Bearer '' @ t)])"

text \<open>The transport, after the media argument has been settled.\<close>

definition dispatch ::
  "world \<Rightarrow> OpenClawMessage \<Rightarrow> bool \<Rightarrow> string option \<Rightarrow> event list \<times> (error + unit)" where
  "dispatch w msg useCLI mediaArg =
     (if useCLI
      then ([ExecAsync (cli_command msg mediaArg)],
            if execAsync_ok w (cli_command msg mediaArg) then Inr () else Inl ExecRejected)
      else
        let body = msg \<lparr> media := media msg \<rparr>;
            request = [HttpPostGateway (gateway_url w) (gateway_headers w) body] in
        case fetch_gateway w (gateway_url w) (gateway_headers w) body of
          None \<Rightarrow> (request, Inl FetchRejected)
        | Some response \<Rightarrow>
            if \<not> ok response then (request, Inl (OpenClawSendFailed (body_text response)))
            else (request, Inr ()))"

definition sendViaOpenClaw ::
  "world \<Rightarrow> OpenClawMessage \<Rightarrow> bool \<Rightarrow> event list \<times> (error + unit)" where
  "sendViaOpenClaw w msg useCLI =
     (let mediaContent = media msg in
      if mediaContent \<noteq> None \<and> startsWith (the mediaContent) ''data:''
      then
        let base64Data = strip_data_url_prefix (the mediaContent);
            tempFile = tempFile_of w (the mediaContent);
            write = [WriteFileSync tempFile (node_base64_decode base64Data)] in
        if \<not> writeFileSync_ok w tempFile then (write, Inl WriteRejected)
        else
          let (sent, r) = dispatch w msg useCLI (Some tempFile) in (write @ sent, r)
      else dispatch w msg useCLI mediaContent)"

subsection \<open>\<open>generateAndSend\<close> and \<open>main\<close>\<close>

definition image_input :: "GenerateAndSendOptions \<Rightarrow> OnoImageInput" where
  "image_input options =
     \<lparr> prompt = opt_prompt options,
       num_images = Some 1,
       aspect_ratio = Some (case opt_aspectRatio options of None \<Rightarrow> ''1:1'' | Some a \<Rightarrow> a),
       output_format = Some (case outputFormat options of None \<Rightarrow> ''jpeg'' | Some f \<Rightarrow> f) \<rparr>"

definition openclaw_message :: "GenerateAndSendOptions \<Rightarrow> string \<Rightarrow> OpenClawMessage" where
  "openclaw_message options url =
     \<lparr> action = ''send'',
       channel = opt_channel options,
       message = (case caption options of None \<Rightarrow> ''Generated with Google Gemini'' | Some c \<Rightarrow> c),
       media = Some url \<rparr>"

definition generateAndSend ::
  "world \<Rightarrow> GenerateAndSendOptions \<Rightarrow> event list \<times> (error + Result)" where
  "generateAndSend w options =
     (case generateImage w (image_input options) of
        (generated, Inl e) \<Rightarrow> (generated, Inl e)
      | (generated, Inr url) \<Rightarrow>
          (case sendViaOpenClaw w (openclaw_message options url)
                  (case useOpenClawCLI options of None \<Rightarrow> True | Some b \<Rightarrow> b) of
             (sent, Inl e) \<Rightarrow> (generated @ sent, Inl e)
           | (sent, Inr _) \<Rightarrow>
               (generated @ sent,
                Inr \<lparr> success = True,
                      imageUrl = substring url 0 50 @ ''...'',
                      res_channel = opt_channel options,
                      res_prompt = opt_prompt options \<rparr>)))"

text \<open>
  \<open>main\<close>: the arguments after the script name; the result is the trace and the exit
  status of the process.
\<close>

definition nth_arg :: "string list \<Rightarrow> nat \<Rightarrow> string option" where
  "nth_arg args i = (if i < length args then Some (args ! i) else None)"

definition main :: "world \<Rightarrow> string list \<Rightarrow> event list \<times> nat" where
  "main w args =
     (if length args < 2 then ([], 1)
      else
        case generateAndSend w
               \<lparr> opt_prompt = args ! 0,
                 opt_channel = args ! 1,
                 caption = nth_arg args 2,
                 opt_aspectRatio = nth_arg args 3,
                 outputFormat = nth_arg args 4,
                 useOpenClawCLI = None \<rparr> of
          (trace, Inl e) \<Rightarrow> (trace, 1)
        | (trace, Inr result) \<Rightarrow> (trace, 0))"

section \<open>The shell pipeline, from the request to the dispatch\<close>

text \<open>
  The outside world of the script: the environment variable (unset and empty are the
  same to \<open>-z\<close>), the case fold of the locale the script runs in, \<open>date +%s\<close>,
  the text \<open>curl -s\<close> prints for a request, and the text
  that \<open>jq -r '.predictions[0].bytesBase64Encoded'\<close> prints for a response (as the
  command substitution keeps it, without trailing newlines). The script has no
  \<open>set -e\<close>: the exit status of \<open>base64\<close> and of \<open>openclaw\<close> is ignored, and a run
  that reaches the last \<open>echo\<close> ends with status 0. \<open>echo "$s"\<close> is taken to print
  \<open>s\<close> and a newline (a text that is exactly one of \<open>echo\<close>'s options, such as
  \<open>-n\<close>, prints nothing; it contains no keyword, is not \<open>error\<close> and is not
  Base64, so no result below depends on it).
\<close>

record shell_world =
  sh_GEMINI_API_KEY :: string
  locale_fold :: case_fold
  date_seconds :: nat
  curl :: "string \<Rightarrow> Payload \<Rightarrow> string"
  jq_bytesBase64Encoded :: "string \<Rightarrow> string"

text \<open>\<open>echo "$s" | grep -q "k"\<close>: some line contains the literal text.\<close>

definition grep_q :: "string \<Rightarrow> string \<Rightarrow> bool" where
  "grep_q k s = list_ex (sublist k) (split_lines s)"

definition positional :: "string list \<Rightarrow> nat \<Rightarrow> string" where
  "positional args i = (if i < length args then args ! i else [])"

definition ono_selfie_sh :: "shell_world \<Rightarrow> string list \<Rightarrow> event list \<times> nat" where
  "ono_selfie_sh w args =
     (if sh_GEMINI_API_KEY w = [] then ([], 1)
      else
        let USER_CONTEXT = positional args 0;
            CHANNEL = positional args 1;
            MODE = param_default (positional args 2) ''auto'';
            CAPTION = param_default (positional args 3) ''Generated with Google Gemini''
        in
        if USER_CONTEXT = [] \<or> CHANNEL = [] then ([], 1)
        else
          let API_URL = endpoint (sh_GEMINI_API_KEY w);
              JSON_PAYLOAD =
                \<lparr> instances_prompt = GEN_PROMPT (select_mode (locale_fold w) MODE USER_CONTEXT)
                                     USER_CONTEXT,
                  sampleCount = 1, aspectRatio = ''1:1'',
                  outputOptions_mimeType = ''image/jpeg'' \<rparr>;
              RESPONSE = curl w API_URL JSON_PAYLOAD;
              request = [HttpPostGenerate API_URL JSON_PAYLOAD]
          in
          if grep_q ''error'' RESPONSE then (request, 1)
          else
            let BASE64_IMAGE = jq_bytesBase64Encoded w RESPONSE in
            if BASE64_IMAGE = ''null'' \<or> BASE64_IMAGE = [] then (request, 1)
            else
              let TEMP_FILE = ''/tmp/ono-selfie-'' @ show_nat (date_seconds w) @ ''.jpeg'' in
              (request @
               [Base64DecodeTo TEMP_FILE (BASE64_IMAGE @ [newline]),
                Openclaw [''message'', ''send'', ''--action'', ''send'', ''--channel'', CHANNEL,
                          ''--message'', CAPTION, ''--media'', TEMP_FILE]],
               0))"

subsection \<open>The keyword classes as the specification words them\<close>

text \<open>
  The specification speaks of a text that contains a keyword, case-insensitively, anywhere
  in it, and lists nine mirror keywords and ten direct keywords. These definitions follow
  the specification's words, with case-insensitivity that of the locale of the run; the
  script's own lists are \<open>mirror_alternatives\<close> and \<open>direct_alternatives\<close> above.
\<close>

definition contains_ci :: "case_fold \<Rightarrow> string \<Rightarrow> string \<Rightarrow> bool" where
  "contains_ci cf s k = sublist (cf k) (cf s)"

definition contains_any :: "case_fold \<Rightarrow> string list \<Rightarrow> string \<Rightarrow> bool" where
  "contains_any cf ks s = list_ex (contains_ci cf s) ks"

definition spec_mirror_keywords :: "string list" where
  "spec_mirror_keywords =
     [''outfit'', ''wearing'', ''clothes'', ''dress'', ''suit'', ''fashion'',
      ''full-body'', ''mirror'', ''reflection'']"

definition spec_direct_keywords :: "string list" where
  "spec_direct_keywords =
     [''cafe'', ''restaurant'', ''beach'', ''park'', ''city'', ''close-up'',
      ''portrait'', ''face'', ''eyes'', ''smile'']"

section \<open>Dispatch events and concrete runs\<close>

text \<open>
  The events that hand the image to the messaging gateway, and a concrete outside world
  (every service answers with success) on which the functions are run.
\<close>

definition reply_with :: "ResponseData \<Rightarrow> string \<Rightarrow> Payload \<Rightarrow> Response option" where
  "reply_with d url body =
     Some \<lparr> ok = True, status = 200, statusText = ''OK'', body_text = [], body_json = Some d \<rparr>"

definition gateway_accepts ::
  "string \<Rightarrow> (string \<times> string) list \<Rightarrow> OpenClawMessage \<Rightarrow> Response option" where
  "gateway_accepts url headers body =
     Some \<lparr> ok = True, status = 200, statusText = ''OK'', body_text = [], body_json = None \<rparr>"

definition succeeds :: "string \<Rightarrow> bool" where
  "succeeds x = True"

definition example_world :: "string option \<Rightarrow> ResponseData \<Rightarrow> world" where
  "example_world key d =
     \<lparr> GEMINI_API_KEY = key, OPENCLAW_GATEWAY_URL = None, OPENCLAW_GATEWAY_TOKEN = None,
       Date_now = 1700000000000, fetch_generate = reply_with d,
       writeFileSync_ok = succeeds, execAsync_ok = succeeds, fetch_gateway = gateway_accepts \<rparr>"

definition example_input :: OnoImageInput where
  "example_input = \<lparr> prompt = ''a selfie'', num_images = None, aspect_ratio = None, output_format = None \<rparr>"

definition example_message :: OpenClawMessage where
  "example_message =
     \<lparr> action = ''send'', channel = ''#general'', message = ''hello'',
       media = Some ''data:image/jpeg;base64,QUJD'' \<rparr>"

definition example_options :: GenerateAndSendOptions where
  "example_options =
     \<lparr> opt_prompt = ''a selfie'', opt_channel = ''#general'', caption = None,
       opt_aspectRatio = None, outputFormat = None, useOpenClawCLI = None \<rparr>"

definition no_predictions :: ResponseData where
  "no_predictions = \<lparr> predictions = Some [] \<rparr>"

definition one_image :: ResponseData where
  "one_image = \<lparr> predictions = Some [\<lparr> bytesBase64Encoded = Some ''QUJD'', mimeType = None \<rparr>] \<rparr>"

definition curl_prints :: "string \<Rightarrow> string \<Rightarrow> Payload \<Rightarrow> string" where
  "curl_prints response url body = response"

definition jq_prints :: "string \<Rightarrow> string \<Rightarrow> string" where
  "jq_prints out response = out"

definition example_shell :: "string \<Rightarrow> string \<Rightarrow> shell_world" where
  "example_shell key out =
     \<lparr> sh_GEMINI_API_KEY = key, locale_fold = lower, date_seconds = 1700000000,
       curl = curl_prints ''{}'', jq_bytesBase64Encoded = jq_prints out \<rparr>"

fun is_dispatch :: "event \<Rightarrow> bool" where
  "is_dispatch (ExecAsync cmd) = True"
| "is_dispatch (HttpPostGateway url headers body) = True"
| "is_dispatch (Openclaw argv) = True"
| "is_dispatch _ = False"

lemmas example_defs = example_world_def reply_with_def gateway_accepts_def succeeds_def example_input_def

section \<open>Properties of the mode selector\<close>

subsection \<open>Line-wise search is search in the whole text\<close>

lemma sublist_split:
  assumes "x \<notin> set k" and "sublist k (a @ x # b)"
  shows "sublist k a \<or> sublist k b"
proof -
  have pre: "prefix k' (x # b) \<Longrightarrow> set k' \<subseteq> set k \<Longrightarrow> k' = []" for k'
    using assms(1) by (cases k') auto
  from assms(2) consider "sublist k a" | "sublist k (x # b)"
    | k1 k2 where "k = k1 @ k2" "suffix k1 a" "prefix k2 (x # b)"
    by (auto simp: sublist_append)
  then show ?thesis
  proof cases
    case 1 then show ?thesis by simp
  next
    case 2
    then have "prefix k (x # b) \<or> sublist k b" by (simp add: sublist_Cons_right)
    then show ?thesis using pre[of k] by auto
  next
    case 3
    then have "k2 = []" using pre[of k2] by auto
    with 3 show ?thesis by auto
  qed
qed

lemma sublist_join:
  assumes "sublist k a \<or> sublist k b"
  shows "sublist k (a @ x # b)"
  using assms
proof
  assume "sublist k a"
  then obtain ps ss where "a = ps @ k @ ss" unfolding sublist_def by blast
  then have "a @ x # b = ps @ k @ (ss @ x # b)" by simp
  then show ?thesis unfolding sublist_def by blast
next
  assume "sublist k b"
  then obtain ps ss where "b = ps @ k @ ss" unfolding sublist_def by blast
  then have "a @ x # b = (a @ x # ps) @ k @ ss" by simp
  then show ?thesis unfolding sublist_def by blast
qed

lemma sublist_across:
  assumes "x \<notin> set k"
  shows "sublist k (a @ x # b) \<longleftrightarrow> sublist k a \<or> sublist k b"
proof
  assume "sublist k (a @ x # b)"
  then show "sublist k a \<or> sublist k b" by (rule sublist_split [OF assms])
next
  assume "sublist k a \<or> sublist k b"
  then show "sublist k (a @ x # b)" by (rule sublist_join)
qed

lemma split_at_newline:
  assumes "dropWhile (\<lambda>c. c \<noteq> newline) s = x # r"
  shows "s = takeWhile (\<lambda>c. c \<noteq> newline) s @ newline # r"
proof -
  have "x = newline"
    using hd_dropWhile [of "\<lambda>c. c \<noteq> newline" s] assms by simp
  moreover have "s = takeWhile (\<lambda>c. c \<noteq> newline) s @ dropWhile (\<lambda>c. c \<noteq> newline) s"
    by simp
  ultimately show ?thesis by (simp only: assms)
qed

lemma grep_lines:
  assumes "line_wise cf" and "newline \<notin> set k"
  shows "list_ex (\<lambda>l. sublist k (cf l)) (split_lines s) \<longleftrightarrow> sublist k (cf s)"
proof (induction s rule: split_lines.induct)
  case (1 s)
  let ?t = "takeWhile (\<lambda>c. c \<noteq> newline) s"
  show ?case
  proof (cases "dropWhile (\<lambda>c. c \<noteq> newline) s")
    case Nil
    have t: "?t = s" using Nil by (metis append_Nil2 takeWhile_dropWhile_id)
    have "split_lines s = [?t]"
      by (subst split_lines.simps) (simp only: Nil list.case)
    then show ?thesis by (simp add: t)
  next
    case (Cons x r)
    have s: "s = ?t @ newline # r" by (rule split_at_newline [OF Cons])
    have "cf s = cf (?t @ newline # r)" by (rule arg_cong [OF s])
    also have "\<dots> = cf ?t @ newline # cf r"
      using assms(1) unfolding line_wise_def by blast
    finally have ls: "cf s = cf ?t @ newline # cf r" .
    have a: "sublist k (cf s) \<longleftrightarrow> sublist k (cf ?t) \<or> sublist k (cf r)"
      by (subst ls) (rule sublist_across [OF assms(2)])
    have b: "list_ex (\<lambda>l. sublist k (cf l)) (split_lines r) \<longleftrightarrow> sublist k (cf r)"
      by (rule "1.IH" [OF Cons])
    have c: "split_lines s = ?t # split_lines r"
      by (subst split_lines.simps) (simp only: Cons list.case)
    show ?thesis by (simp only: a b c list_ex_Cons_iff)
  qed
qed

lemma grep_qiE_iff:
  assumes "line_wise cf" and "\<forall>k\<in>set alts. newline \<notin> set k"
  shows "grep_qiE cf alts s \<longleftrightarrow> contains_any cf alts s"
proof -
  have nl: "newline \<notin> set (cf k)" if "k \<in> set alts" for k
    using assms that unfolding line_wise_def by blast
  have "grep_qiE cf alts s \<longleftrightarrow>
      (\<exists>l\<in>set (split_lines s). \<exists>k\<in>set alts. sublist (cf k) (cf l))"
    by (simp add: grep_qiE_def line_matches_def list_ex_iff)
  also have "\<dots> \<longleftrightarrow>
      (\<exists>k\<in>set alts. list_ex (\<lambda>l. sublist (cf k) (cf l)) (split_lines s))"
    by (auto simp: list_ex_iff)
  also have "\<dots> \<longleftrightarrow> (\<exists>k\<in>set alts. sublist (cf k) (cf s))"
    using nl by (simp add: grep_lines [OF assms(1)])
  finally show ?thesis by (simp add: contains_any_def contains_ci_def list_ex_iff)
qed

lemma mirror_alternatives_one_line: "\<forall>k\<in>set mirror_alternatives. newline \<notin> set k"
  by (simp add: mirror_alternatives_def newline_def)

lemma direct_alternatives_one_line: "\<forall>k\<in>set direct_alternatives. newline \<notin> set k"
  by (simp add: direct_alternatives_def newline_def)

lemma grep_mirror:
  "line_wise cf \<Longrightarrow>
   grep_qiE cf mirror_alternatives s \<longleftrightarrow> contains_any cf mirror_alternatives s"
  by (rule grep_qiE_iff [OF _ mirror_alternatives_one_line])

lemma grep_direct:
  assumes "line_wise cf"
  shows "grep_qiE cf direct_alternatives s \<longleftrightarrow> contains_any cf spec_direct_keywords s"
proof -
  have "spec_direct_keywords = direct_alternatives"
    by (simp add: spec_direct_keywords_def direct_alternatives_def)
  then show ?thesis
    using grep_qiE_iff [OF assms direct_alternatives_one_line, of s] by simp
qed

lemma script_mirror_in_spec:
  "contains_any cf mirror_alternatives s \<Longrightarrow> contains_any cf spec_mirror_keywords s"
  by (auto simp add: contains_any_def mirror_alternatives_def spec_mirror_keywords_def)

text \<open>What the script decides, in terms of its own two lists.\<close>

lemma auto_detect_cases:
  assumes "line_wise cf"
  shows "auto_detect cf s =
     (if contains_any cf mirror_alternatives s then ''mirror''
      else if contains_any cf spec_direct_keywords s then ''direct'' else ''mirror'')"
  by (simp only: auto_detect_def grep_mirror [OF assms] grep_direct [OF assms])

lemma auto_detect_both:
  "line_wise cf \<Longrightarrow> contains_any cf mirror_alternatives s \<Longrightarrow>
   auto_detect cf s = ''mirror''"
  by (simp add: auto_detect_cases)

lemma auto_detect_neither:
  "line_wise cf \<Longrightarrow> \<not> contains_any cf spec_direct_keywords s \<Longrightarrow>
   auto_detect cf s = ''mirror''"
  by (simp add: auto_detect_cases)

subsection \<open>The two folds are folds of a locale\<close>

lemma char_of_eq_iff: "m < 256 \<Longrightarrow> char_of (m::nat) = c \<longleftrightarrow> m = of_char c"
proof
  assume "m < 256" "char_of m = c"
  then have "of_char (char_of m) = (of_char c :: nat)" by simp
  with \<open>m < 256\<close> show "m = of_char c" by simp
next
  assume "m = of_char c"
  then show "char_of m = c" by simp
qed

lemma lower_char_newline_iff: "lower_char c = newline \<longleftrightarrow> c = newline"
proof (cases "65 \<le> (of_char c :: nat) \<and> (of_char c :: nat) \<le> 90")
  case True
  then have "lower_char c = char_of ((of_char c :: nat) + 32)"
    by (simp add: lower_char_def)
  moreover have "char_of ((of_char c :: nat) + 32) \<noteq> newline"
    using True by (simp add: char_of_eq_iff newline_def)
  moreover have "c \<noteq> newline" using True by (auto simp: newline_def)
  ultimately show ?thesis by simp
next
  case False
  then have "lower_char c = c" by (auto simp: lower_char_def Let_def)
  then show ?thesis by simp
qed

lemma lower_line_wise: "line_wise lower"
  unfolding line_wise_def
proof (intro conjI allI impI)
  fix a b
  show "lower (a @ newline # b) = lower a @ newline # lower b"
    using lower_char_newline_iff [of newline] by (simp add: lower_def)
next
  fix k
  assume k: "newline \<notin> set k"
  show "newline \<notin> set (lower k)"
  proof
    assume "newline \<in> set (lower k)"
    then obtain x where "x \<in> set k" "lower_char x = newline" by (auto simp: lower_def)
    then show False using k by (simp add: lower_char_newline_iff)
  qed
qed

lemma fold_utf8_sample_newline:
  "fold_utf8_sample (newline # r) = newline # fold_utf8_sample r"
  using lower_char_newline_iff [of newline]
  by (cases r) (simp_all add: newline_def)

lemma fold_utf8_sample_append:
  "fold_utf8_sample (a @ newline # b) = fold_utf8_sample a @ newline # fold_utf8_sample b"
proof (induction a rule: fold_utf8_sample.induct)
  case (1 x y cs)
  then show ?case by simp
next
  case (2 x)
  have "fold_utf8_sample (x # newline # b) = lower_char x # fold_utf8_sample (newline # b)"
    by (simp add: newline_def)
  then show ?case by (simp add: fold_utf8_sample_newline)
next
  case 3
  show ?case by (simp add: fold_utf8_sample_newline)
qed

lemma fold_utf8_sample_no_newline:
  "newline \<notin> set k \<Longrightarrow> newline \<notin> set (fold_utf8_sample k)"
proof (induction k rule: fold_utf8_sample.induct)
  case (1 x y cs)
  then show ?case
    using lower_char_newline_iff [of x] by (auto simp: newline_def)
next
  case (2 x)
  then show ?case using lower_char_newline_iff [of x] by auto
qed simp

lemma fold_utf8_sample_line_wise: "line_wise fold_utf8_sample"
  unfolding line_wise_def
  using fold_utf8_sample_append fold_utf8_sample_no_newline by blast

lemma lower_folds_ascii_as_C: "folds_ascii_as_C lower"
  by (simp add: folds_ascii_as_C_def)

lemma fold_utf8_sample_ascii: "ascii t \<Longrightarrow> fold_utf8_sample t = lower t"
  by (induction t rule: fold_utf8_sample.induct) (auto simp: ascii_def lower_def)

lemma fold_utf8_sample_folds_ascii_as_C: "folds_ascii_as_C fold_utf8_sample"
  by (simp add: folds_ascii_as_C_def fold_utf8_sample_ascii)

subsection \<open>On ASCII text every such locale agrees with the C locale\<close>

lemma split_lines_subset: "l \<in> set (split_lines s) \<Longrightarrow> set l \<subseteq> set s"
proof (induction s arbitrary: l rule: split_lines.induct)
  case (1 s)
  let ?t = "takeWhile (\<lambda>c. c \<noteq> newline) s"
  have t: "set ?t \<subseteq> set s" by (auto dest: set_takeWhileD)
  show ?case
  proof (cases "dropWhile (\<lambda>c. c \<noteq> newline) s")
    case Nil
    have "split_lines s = [?t]"
      by (subst split_lines.simps) (simp only: Nil list.case)
    with "1.prems" t show ?thesis by simp
  next
    case (Cons x r)
    have c: "split_lines s = ?t # split_lines r"
      by (subst split_lines.simps) (simp only: Cons list.case)
    have "set (x # r) \<subseteq> set s"
      using set_dropWhileD [of _ "\<lambda>c. c \<noteq> newline" s] unfolding Cons by blast
    then have r: "set r \<subseteq> set s" by simp
    from "1.prems" c consider "l = ?t" | "l \<in> set (split_lines r)" by auto
    then show ?thesis
    proof cases
      case 1 then show ?thesis using t by simp
    next
      case 2
      then have "set l \<subseteq> set r" by (rule "1.IH" [OF Cons])
      with r show ?thesis by simp
    qed
  qed
qed

lemma grep_qiE_ascii:
  assumes "folds_ascii_as_C cf" and "ascii s" and "\<forall>k\<in>set alts. ascii k"
  shows "grep_qiE cf alts s = grep_qiE lower alts s"
proof -
  have l: "cf l = lower l" if "l \<in> set (split_lines s)" for l
  proof -
    have "set l \<subseteq> set s" using that by (rule split_lines_subset)
    then have "ascii l" using assms(2) by (auto simp: ascii_def list_all_iff)
    then show ?thesis using assms(1) by (simp add: folds_ascii_as_C_def)
  qed
  have k: "cf k = lower k" if "k \<in> set alts" for k
    using assms(1,3) that by (simp add: folds_ascii_as_C_def)
  show ?thesis
    by (simp add: grep_qiE_def line_matches_def list_ex_iff l k)
qed

lemma alternatives_ascii:
  "\<forall>k\<in>set mirror_alternatives. ascii k" "\<forall>k\<in>set direct_alternatives. ascii k"
  by code_simp+

lemma select_mode_ascii:
  assumes "folds_ascii_as_C cf" and "ascii s"
  shows "select_mode cf m s = select_mode lower m s"
  by (simp add: select_mode_def auto_detect_def
      grep_qiE_ascii [OF assms alternatives_ascii(1)]
      grep_qiE_ascii [OF assms alternatives_ascii(2)])

subsection \<open>Claims about the mode selector\<close>

text \<open>
  C2 (the part the script does not satisfy). The specification counts \<open>reflection\<close> among
  the mirror keywords and says that a text with keywords of both classes is \<open>mirror\<close>.
  The script's first \<open>grep\<close> has no alternative \<open>reflection\<close>: the text
  \<open>my reflection at a cafe\<close> contains a mirror keyword and a direct keyword of the
  specification, and the script in auto mode selects \<open>direct\<close>. The statement is for
  the C locale; the text is ASCII, so the same holds in every locale that folds ASCII
  text alike (lemma \<open>reflection_cafe_any_locale\<close>).
\<close>

theorem auto_mode_reflection_cafe:
  "contains_any lower spec_mirror_keywords ''my reflection at a cafe''
   \<and> contains_any lower spec_direct_keywords ''my reflection at a cafe''
   \<and> select_mode lower (param_default [] ''auto'') ''my reflection at a cafe'' = ''direct''"
  by code_simp

lemma reflection_cafe_any_locale:
  assumes "folds_ascii_as_C cf"
  shows "contains_any cf spec_mirror_keywords ''my reflection at a cafe''
   \<and> contains_any cf spec_direct_keywords ''my reflection at a cafe''
   \<and> select_mode cf (param_default [] ''auto'') ''my reflection at a cafe'' = ''direct''"
proof -
  have a: "ascii ''my reflection at a cafe''" by code_simp
  have ks: "\<forall>k\<in>set spec_mirror_keywords. ascii k" "\<forall>k\<in>set spec_direct_keywords. ascii k"
    by code_simp+
  have f: "cf ''my reflection at a cafe'' = lower ''my reflection at a cafe''"
    using assms a by (simp add: folds_ascii_as_C_def)
  have c: "contains_any cf ks ''my reflection at a cafe''
      = contains_any lower ks ''my reflection at a cafe''" if "\<forall>k\<in>set ks. ascii k" for ks
  proof -
    have "cf k = lower k" if "k \<in> set ks" for k
      using assms \<open>\<forall>k\<in>set ks. ascii k\<close> that by (simp add: folds_ascii_as_C_def)
    then show ?thesis by (simp add: contains_any_def contains_ci_def list_ex_iff f)
  qed
  have "contains_any lower spec_mirror_keywords ''my reflection at a cafe''
   \<and> contains_any lower spec_direct_keywords ''my reflection at a cafe''
   \<and> select_mode lower (param_default [] ''auto'') ''my reflection at a cafe'' = ''direct''"
    by code_simp
  then show ?thesis
    by (simp add: c [OF ks(1)] c [OF ks(2)] select_mode_ascii [OF assms a])
qed

text \<open>
  The locale does decide the mode of a text with such letters: with the long s of
  U+017F in \<open>dress\<close>, the text is \<open>direct\<close> under the fold of the C locale and
  \<open>mirror\<close> under a fold that has U+017F in the class of \<open>s\<close>.
\<close>

lemma locale_decides_mode:
  "select_mode lower ''auto'' (''a dre'' @ [CHR 0xC5, CHR 0xBF] @ ''s at the beach'') = ''direct''
   \<and> select_mode fold_utf8_sample ''auto''
        (''a dre'' @ [CHR 0xC5, CHR 0xBF] @ ''s at the beach'') = ''mirror''
   \<and> select_mode lower ''auto''
        (''my reflection with a '' @ [CHR 0xC5, CHR 0xBF] @ ''mile'') = ''mirror''
   \<and> select_mode fold_utf8_sample ''auto''
        (''my reflection with a '' @ [CHR 0xC5, CHR 0xBF] @ ''mile'') = ''direct''"
  by code_simp

text \<open>
  C3. In the locale of the run (any case fold that works line by line), a text that
  contains a mirror keyword of the specification and no direct keyword is \<open>mirror\<close> in
  auto mode; a text that contains a direct keyword and no mirror keyword of the
  specification is \<open>direct\<close>. Containment is case-insensitive as the locale has it, on
  both sides.
\<close>

theorem auto_mode_single_class:
  assumes "line_wise cf"
  shows "(contains_any cf spec_mirror_keywords s \<and> \<not> contains_any cf spec_direct_keywords s
      \<longrightarrow> select_mode cf ''auto'' s = ''mirror'')
   \<and> (contains_any cf spec_direct_keywords s \<and> \<not> contains_any cf spec_mirror_keywords s
      \<longrightarrow> select_mode cf ''auto'' s = ''direct'')"
proof (intro conjI impI)
  assume "contains_any cf spec_mirror_keywords s \<and> \<not> contains_any cf spec_direct_keywords s"
  then show "select_mode cf ''auto'' s = ''mirror''"
    by (simp add: select_mode_def auto_detect_neither [OF assms])
next
  assume a: "contains_any cf spec_direct_keywords s
      \<and> \<not> contains_any cf spec_mirror_keywords s"
  then have "\<not> contains_any cf mirror_alternatives s"
    using script_mirror_in_spec by blast
  with a show "select_mode cf ''auto'' s = ''direct''"
    by (simp add: select_mode_def auto_detect_cases [OF assms])
qed

theorem auto_mode_single_class_witness:
  "line_wise lower \<and> line_wise fold_utf8_sample
   \<and> (contains_any lower spec_mirror_keywords ''my Reflection in the window''
      \<and> \<not> contains_any lower spec_direct_keywords ''my Reflection in the window''
      \<and> select_mode lower ''auto'' ''my Reflection in the window'' = ''mirror'')
   \<and> (contains_any lower spec_direct_keywords ''a sunny BEACH''
      \<and> \<not> contains_any lower spec_mirror_keywords ''a sunny BEACH''
      \<and> select_mode lower ''auto'' ''a sunny BEACH'' = ''direct'')
   \<and> (contains_any fold_utf8_sample spec_direct_keywords (''a '' @ [CHR 0xC5, CHR 0xBF] @ ''mile'')
      \<and> \<not> contains_any fold_utf8_sample spec_mirror_keywords
            (''a '' @ [CHR 0xC5, CHR 0xBF] @ ''mile'')
      \<and> select_mode fold_utf8_sample ''auto'' (''a '' @ [CHR 0xC5, CHR 0xBF] @ ''mile'')
          = ''direct'')"
proof -
  have m: "contains_any lower spec_mirror_keywords ''my Reflection in the window''
      \<and> \<not> contains_any lower spec_direct_keywords ''my Reflection in the window''"
    by code_simp
  have d: "contains_any lower spec_direct_keywords ''a sunny BEACH''
      \<and> \<not> contains_any lower spec_mirror_keywords ''a sunny BEACH''"
    by code_simp
  have u: "contains_any fold_utf8_sample spec_direct_keywords
        (''a '' @ [CHR 0xC5, CHR 0xBF] @ ''mile'')
      \<and> \<not> contains_any fold_utf8_sample spec_mirror_keywords
            (''a '' @ [CHR 0xC5, CHR 0xBF] @ ''mile'')"
    by code_simp
  show ?thesis
    using m d u lower_line_wise fold_utf8_sample_line_wise
      auto_mode_single_class [OF lower_line_wise, of "''my Reflection in the window''"]
      auto_mode_single_class [OF lower_line_wise, of "''a sunny BEACH''"]
      auto_mode_single_class [OF fold_utf8_sample_line_wise,
        of "''a '' @ [CHR 0xC5, CHR 0xBF] @ ''mile''"]
    by blast
qed

text \<open>
  On a text of ASCII characters the same holds with containment read as ASCII
  case-insensitivity, in every locale that folds ASCII text as the C locale does.
\<close>

lemma auto_mode_single_class_ascii:
  assumes "folds_ascii_as_C cf" and "ascii s"
  shows "(contains_any lower spec_mirror_keywords s \<and> \<not> contains_any lower spec_direct_keywords s
      \<longrightarrow> select_mode cf ''auto'' s = ''mirror'')
   \<and> (contains_any lower spec_direct_keywords s \<and> \<not> contains_any lower spec_mirror_keywords s
      \<longrightarrow> select_mode cf ''auto'' s = ''direct'')"
proof -
  have e: "select_mode cf ''auto'' s = auto_detect lower s"
    using select_mode_ascii [OF assms, of "''auto''"] by (simp add: select_mode_def)
  show ?thesis
    unfolding e using script_mirror_in_spec [of lower s]
    by (auto simp: auto_detect_cases [OF lower_line_wise])
qed

section \<open>Properties of the prompt builder\<close>

text \<open>
  C1 as the specification states it: the two prompts it quotes are not the prompts the
  script builds for those contexts.
\<close>

theorem GEN_PROMPT_not_spec_templates:
  "GEN_PROMPT ''direct'' ''a cozy cafe with warm lighting'' \<noteq>
     ''a close-up selfie taken by herself at a cozy cafe with warm lighting, direct eye contact with the camera, looking straight into the lens, eyes centered and clearly visible, not a mirror selfie, phone held at arm's length, face fully visible''
   \<and> GEN_PROMPT ''mirror'' ''wearing a santa hat'' \<noteq>
     ''make a pic of this person, but wearing a santa hat. the person is taking a mirror selfie''"
  by (simp add: GEN_PROMPT_def BASE_DESCRIPTION_def)

text \<open>
  C1 amended: for every user context, the prompt for mode \<open>direct\<close> is the script's direct
  template around the context, and the prompt for mode \<open>mirror\<close> is the script's mirror
  template around the context; both carry the base description.
\<close>

theorem GEN_PROMPT_templates:
  "GEN_PROMPT ''direct'' c =
     ''a photorealistic close-up selfie of a young woman with long dark hair at '' @ c
     @ '', direct eye contact with the camera, looking straight into the lens, eyes centered and clearly visible, phone held at arm's length, face fully visible, 8k, highly detailed''
   \<and> GEN_PROMPT ''mirror'' c =
     ''a photorealistic mirror selfie of a young woman with long dark hair, '' @ c
     @ '', full body shot, detailed background, 8k, highly detailed''"
  by (simp add: GEN_PROMPT_def BASE_DESCRIPTION_def)

section \<open>Properties of the Base64 coders\<close>

subsection \<open>Regrouping bits\<close>

lemma div_shift: "k < n \<Longrightarrow> (m * n + k) div n = (m::nat)"
  by simp
lemma mod_shift: "k < n \<Longrightarrow> (m * n + k) mod n = (k::nat)"
  by simp

lemma regroup1:
  assumes "b < 256" shows "(a div 4) * 4 + ((a mod 4) * 16 + b div 16) div 16 = (a::nat)"
proof -
  have "b div 16 < 16" using assms by simp
  then have "((a mod 4) * 16 + b div 16) div 16 = a mod 4" by (rule div_shift)
  then show ?thesis by simp
qed

lemma regroup2:
  assumes "b < 256" "c < 256"
  shows "(((a mod 4) * 16 + b div 16) mod 16) * 16 + ((b mod 16) * 4 + c div 64) div 4 = (b::nat)"
proof -
  have "b div 16 < 16" using assms by simp
  then have 1: "((a mod 4) * 16 + b div 16) mod 16 = b div 16" by (rule mod_shift)
  have "c div 64 < 4" using assms by simp
  then have 2: "((b mod 16) * 4 + c div 64) div 4 = b mod 16" by (rule div_shift)
  show ?thesis by (simp only: 1 2) simp
qed

lemma regroup3:
  assumes "c < 256"
  shows "(((b mod 16) * 4 + c div 64) mod 4) * 64 + c mod 64 = (c::nat)"
proof -
  have "c div 64 < 4" using assms by simp
  then have 1: "((b mod 16) * 4 + c div 64) mod 4 = c div 64" by (rule mod_shift)
  show ?thesis by (simp only: 1) simp
qed

lemma regroup2_last:
  assumes "b < 256"
  shows "(((a mod 4) * 16 + b div 16) mod 16) * 16 + ((b mod 16) * 4) div 4 = (b::nat)"
proof -
  have "b div 16 < 16" using assms by simp
  then have 1: "((a mod 4) * 16 + b div 16) mod 16 = b div 16" by (rule mod_shift)
  show ?thesis by (simp only: 1) simp
qed

lemma regroup1_last: "(a div 4) * 4 + ((a mod 4) * 16) div 16 = (a::nat)"
  by simp

lemma byte_bound: "unat (x::byte) < 256"
  using unsigned_less [of x] by simp

lemma pack_bound: "p < m \<Longrightarrow> q < n \<Longrightarrow> p * n + q < m * (n::nat)"
proof -
  assume a: "p < m" "q < n"
  then have "p * n + q < p * n + n" by simp
  also have "\<dots> = (p + 1) * n" by simp
  also have "\<dots> \<le> m * n" using a(1) by (intro mult_le_mono1) simp
  finally show ?thesis .
qed

lemma sextet_bounds:
  fixes x y z :: byte
  shows "unat x div 4 < 64"
    and "(unat x mod 4) * 16 + unat y div 16 < 64"
    and "(unat y mod 16) * 4 + unat z div 64 < 64"
    and "unat z mod 64 < 64"
    and "(unat y mod 16) * 4 < 64"
    and "(unat x mod 4) * 16 < 64"
proof -
  show "unat x div 4 < 64" using byte_bound [of x] by simp
  have "unat y div 16 < 16" using byte_bound [of y] by simp
  then show "(unat x mod 4) * 16 + unat y div 16 < 64"
    using pack_bound [of "unat x mod 4" 4 "unat y div 16" 16] by simp
  have "unat z div 64 < 4" using byte_bound [of z] by simp
  then show "(unat y mod 16) * 4 + unat z div 64 < 64"
    using pack_bound [of "unat y mod 16" 16 "unat z div 64" 4] by simp
  show "unat z mod 64 < 64" by simp
  show "(unat y mod 16) * 4 < 64"
    using pack_bound [of "unat y mod 16" 16 0 4] by simp
  show "(unat x mod 4) * 16 < 64"
    using pack_bound [of "unat x mod 4" 4 0 16] by simp
qed

lemma encode_shape: "base64_encode bs = map enc_char (sextet_values bs) @ padding bs"
  by (induction bs rule: base64_encode.induct) simp_all

lemma sextet_values_bound: "v \<in> set (sextet_values bs) \<Longrightarrow> v < 64"
  by (induction bs rule: sextet_values.induct) (auto simp: sextet_bounds)

lemma decode_groups_sextet_values: "decode_groups (sextet_values bs) = bs"
proof (induction bs rule: sextet_values.induct)
  case (1 x y z rest)
  have "decode_groups (sextet_values (x # y # z # rest)) =
      [of_nat (unat x), of_nat (unat y), of_nat (unat z)] @ rest"
    by (simp only: sextet_values.simps append_Cons append_Nil decode_groups.simps
        regroup1 [OF byte_bound] regroup2 [OF byte_bound byte_bound]
        regroup3 [OF byte_bound] "1.IH")
  then show ?case by simp
next
  case (2 x y)
  have "decode_groups (sextet_values [x, y]) = [of_nat (unat x), of_nat (unat y)]"
    by (simp only: sextet_values.simps decode_groups.simps
        regroup1 [OF byte_bound] regroup2_last [OF byte_bound])
  then show ?case by simp
next
  case (3 x)
  have "decode_groups (sextet_values [x]) = [of_nat (unat x)]"
    by (simp only: sextet_values.simps decode_groups.simps regroup1_last)
  then show ?case by simp
qed simp

lemma enc_char_cases:
  assumes "n < 64"
  obtains "n < 26" "enc_char n = char_of (65 + n)"
  | "26 \<le> n" "n < 52" "enc_char n = char_of (71 + n)"
  | m where "n = 52 + m" "m < 10" "enc_char n = char_of (48 + m)"
  | "n = 62" "enc_char n = CHR ''+''"
  | "n = 63" "enc_char n = CHR ''/''"
proof -
  consider "n < 26" | "26 \<le> n \<and> n < 52" | "52 \<le> n \<and> n < 62" | "n = 62" | "n = 63"
    using assms by linarith
  then show ?thesis
  proof cases
    case 1 then show ?thesis using that(1) by (simp add: enc_char_def)
  next
    case 2 then show ?thesis using that(2) by (simp add: enc_char_def)
  next
    case 3
    then obtain m where m: "n = 52 + m" using le_iff_add by blast
    with 3 have "m < 10" by simp
    moreover have "enc_char n = char_of (48 + m)" using m \<open>m < 10\<close> by (simp add: enc_char_def)
    ultimately show ?thesis using m that(3) by blast
  next
    case 4 then show ?thesis using that(4) by (simp add: enc_char_def)
  next
    case 5 then show ?thesis using that(5) by (simp add: enc_char_def)
  qed
qed

lemma unbase64_enc_char:
  assumes "n < 64" shows "unbase64 (enc_char n) = Some n"
  using assms
proof (cases n rule: enc_char_cases)
  case 1 then show ?thesis by (simp add: unbase64_def)
next
  case 2 then show ?thesis by (simp add: unbase64_def)
next
  case (3 m) then show ?thesis by (simp add: unbase64_def)
next
  case 4 then show ?thesis by (simp add: unbase64_def)
next
  case 5 then show ?thesis by (simp add: unbase64_def)
qed

lemma enc_char_neq:
  assumes "n < 64"
  shows "enc_char n \<noteq> CHR ''=''" and "enc_char n \<noteq> newline"
    and "enc_char n \<noteq> CHR ''-''" and "enc_char n \<noteq> CHR ''_''"
proof -
  have "enc_char n \<noteq> CHR ''='' \<and> enc_char n \<noteq> newline \<and> enc_char n \<noteq> CHR ''-''
      \<and> enc_char n \<noteq> CHR ''_''"
    using assms
  proof (cases n rule: enc_char_cases)
    case 1 then show ?thesis by (simp add: char_of_eq_iff newline_def)
  next
    case 2 then show ?thesis by (simp add: char_of_eq_iff newline_def)
  next
    case (3 m) then show ?thesis by (simp add: char_of_eq_iff newline_def)
  next
    case 4 then show ?thesis by (simp add: newline_def)
  next
    case 5 then show ?thesis by (simp add: newline_def)
  qed
  then show "enc_char n \<noteq> CHR ''=''" and "enc_char n \<noteq> newline"
    and "enc_char n \<noteq> CHR ''-''" and "enc_char n \<noteq> CHR ''_''" by simp_all
qed

lemma padding_cases: "padding bs = [] \<or> padding bs = ''='' \<or> padding bs = ''==''"
  by (induction bs rule: padding.induct) simp_all

lemma unbase64_pad: "unbase64 CHR ''='' = None"
  by (simp add: unbase64_def)

lemma sextets_padding: "sextets (padding bs) = []"
  using padding_cases [of bs] by (auto simp: unbase64_pad)

lemma sextets_encoded:
  "\<forall>v\<in>set vs. v < 64 \<Longrightarrow> sextets (map enc_char vs @ p) = vs @ sextets p"
  by (induction vs) (simp_all add: unbase64_enc_char)

lemma node_round_trip: "node_base64_decode (base64_encode bs) = bs"
proof -
  have "sextets (base64_encode bs) = sextet_values bs"
    using sextets_encoded [of "sextet_values bs" "padding bs"] sextet_values_bound
    by (simp add: encode_shape sextets_padding)
  then show ?thesis by (simp add: node_base64_decode_def decode_groups_sextet_values)
qed

lemma length_base64_encode: "length (base64_encode bs) mod 4 = 0"
  by (induction bs rule: base64_encode.induct) simp_all

lemma newline_notin_padding: "newline \<notin> set (padding bs)"
  using padding_cases [of bs] by (auto simp: newline_def)

lemma enc_set_neq:
  assumes "c \<in> set (map enc_char (sextet_values bs))"
  shows "c \<noteq> CHR ''=''" and "c \<noteq> newline"
proof -
  from assms obtain v where v: "v \<in> set (sextet_values bs)" "c = enc_char v" by auto
  then have "v < 64" by (simp add: sextet_values_bound)
  then show "c \<noteq> CHR ''=''" and "c \<noteq> newline" using v(2) enc_char_neq by simp_all
qed

lemma newline_notin_encoded: "newline \<notin> set (base64_encode bs)"
proof
  assume "newline \<in> set (base64_encode bs)"
  then have "newline \<in> set (map enc_char (sextet_values bs)) \<or> newline \<in> set (padding bs)"
    by (simp add: encode_shape)
  then show False using enc_set_neq(2) newline_notin_padding by blast
qed

lemma takeWhile_padding: "takeWhile (\<lambda>c. c \<noteq> CHR ''='') (padding bs) = []"
  using padding_cases [of bs] by auto

lemma dropWhile_padding: "dropWhile (\<lambda>c. c \<noteq> CHR ''='') (padding bs) = padding bs"
  using padding_cases [of bs] by auto

lemma body_of_encoded:
  "takeWhile (\<lambda>c. c \<noteq> CHR ''='') (base64_encode bs) = map enc_char (sextet_values bs)"
proof -
  have "takeWhile (\<lambda>c. c \<noteq> CHR ''='') (map enc_char (sextet_values bs) @ padding bs)
      = map enc_char (sextet_values bs) @ takeWhile (\<lambda>c. c \<noteq> CHR ''='') (padding bs)"
    by (rule takeWhile_append2) (rule enc_set_neq(1))
  then show ?thesis by (simp add: encode_shape takeWhile_padding)
qed

lemma pad_of_encoded:
  "dropWhile (\<lambda>c. c \<noteq> CHR ''='') (base64_encode bs) = padding bs"
proof -
  have "dropWhile (\<lambda>c. c \<noteq> CHR ''='') (map enc_char (sextet_values bs) @ padding bs)
      = dropWhile (\<lambda>c. c \<noteq> CHR ''='') (padding bs)"
    by (rule dropWhile_append2) (rule enc_set_neq(1))
  then show ?thesis by (simp add: encode_shape dropWhile_padding)
qed

lemma isbase64_enc_char: "n < 64 \<Longrightarrow> isbase64 (enc_char n)"
  by (simp add: isbase64_def unbase64_enc_char enc_char_neq)

lemma gnu_round_trip: "gnu_base64_decode (base64_encode bs @ [newline]) = Some bs"
proof -
  have f: "filter (\<lambda>c. c \<noteq> newline) (base64_encode bs @ [newline]) = base64_encode bs"
    using newline_notin_encoded [of bs] by (auto simp: filter_id_conv)
  have a: "list_all isbase64 (map enc_char (sextet_values bs))"
    using sextet_values_bound isbase64_enc_char by (auto simp: list_all_iff)
  have v: "map (\<lambda>c. the (unbase64 c)) (map enc_char (sextet_values bs)) = sextet_values bs"
    using sextet_values_bound by (simp add: unbase64_enc_char map_idI)
  show ?thesis
    unfolding gnu_base64_decode_def f Let_def body_of_encoded pad_of_encoded v
    using a padding_cases [of bs]
    by (simp add: length_base64_encode decode_groups_sextet_values)
qed

section \<open>Properties of the TypeScript pipeline\<close>

text \<open>
  C4. The claim: a first prediction without a base64 payload, or with an empty one, makes
  the image requester fail. \<open>generateImage\<close> has no such check: with the payload
  absent it returns the media reference \<open>data:image/jpeg;base64,undefined\<close>, and
  with the empty payload the reference \<open>data:image/jpeg;base64,\<close>. The shell
  script does check (lemma \<open>sh_missing_payload\<close>).
\<close>

theorem generateImage_accepts_missing_payload:
  "snd (generateImage
          (example_world (Some ''key'')
             \<lparr> predictions = Some [\<lparr> bytesBase64Encoded = None, mimeType = None \<rparr>] \<rparr>)
          example_input)
     = Inr ''data:image/jpeg;base64,undefined''
   \<and> snd (generateImage
          (example_world (Some ''key'')
             \<lparr> predictions = Some [\<lparr> bytesBase64Encoded = Some [], mimeType = None \<rparr>] \<rparr>)
          example_input)
     = Inr ''data:image/jpeg;base64,''"
  by (simp add: generateImage_def example_defs or_else_def template_def Let_def)

lemma strip_data_url:
  assumes "w \<noteq> []" "list_all word_char w"
  shows "strip_data_url_prefix (''data:image/'' @ w @ '';base64,'' @ d) = d"
proof -
  have nw: "\<not> word_char CHR '';''" by (simp add: word_char_def)
  have tw: "takeWhile word_char (w @ '';base64,'' @ d) = w"
    using assms(2) nw by (simp add: takeWhile_append2 list_all_iff)
  have dw: "dropWhile word_char (w @ '';base64,'' @ d) = '';base64,'' @ d"
    using assms(2) nw by (simp add: dropWhile_append2 list_all_iff)
  have st: "startsWith (''data:image/'' @ w @ '';base64,'' @ d) ''data:image/''"
    by (simp add: startsWith_def)
  have dr: "drop (length ''data:image/'') (''data:image/'' @ w @ '';base64,'' @ d)
      = w @ '';base64,'' @ d" by simp
  show ?thesis
    unfolding strip_data_url_prefix_def Let_def dr tw dw
    using st assms(1) by (simp add: startsWith_def)
qed

lemma strip_jpeg: "strip_data_url_prefix (''data:image/jpeg;base64,'' @ d) = d"
proof -
  have "list_all word_char ''jpeg''" by (simp add: word_char_def)
  then show ?thesis using strip_data_url [of "''jpeg''" d] by simp
qed

lemma strip_png: "strip_data_url_prefix (''data:image/png;base64,'' @ d) = d"
proof -
  have "list_all word_char ''png''" by (simp add: word_char_def)
  then show ?thesis using strip_data_url [of "''png''" d] by simp
qed

lemma example_tempFile:
  "tempFile_of (example_world k d) ''data:image/jpeg;base64,QUJD'' = ''/tmp/ono-selfie-1700000000000.jpeg''"
  by (simp add: tempFile_of_def example_world_def substring_def show_nat.simps digit_char_def)

lemma decode_example: "node_base64_decode (strip_data_url_prefix ''data:image/jpeg;base64,QUJD'') = [65, 66, 67]"
proof -
  have "strip_data_url_prefix (''data:image/jpeg;base64,'' @ ''QUJD'') = ''QUJD''"
    by (rule strip_jpeg)
  moreover have "node_base64_decode ''QUJD'' = [65, 66, 67]" by code_simp
  ultimately show ?thesis by simp
qed

text \<open>
  C5 as the specification states it: the decode-and-write would happen only for the
  command-line transport. With the HTTP transport selected and a data URL as media,
  \<open>sendViaOpenClaw\<close> writes the temporary file all the same, before it posts the data
  URL to the gateway.
\<close>

theorem sendViaOpenClaw_http_writes_file:
  "fst (sendViaOpenClaw (example_world (Some ''key'') one_image) example_message False) =
     [WriteFileSync ''/tmp/ono-selfie-1700000000000.jpeg'' [65, 66, 67],
      HttpPostGateway ''http://localhost:18789/message''
        [(''Content-Type'', ''application/json'')] example_message]"
proof -
  have m: "media example_message = Some ''data:image/jpeg;base64,QUJD''"
    by (simp add: example_message_def)
  show ?thesis
    unfolding sendViaOpenClaw_def Let_def m option.sel example_tempFile decode_example
    by (simp add: startsWith_def dispatch_def example_defs gateway_url_def gateway_headers_def
        or_else_def)
qed

text \<open>
  C5 amended: when the media reference is a data URL, the dispatcher first decodes it and
  writes the bytes to a temporary file, whichever transport is selected; with the
  command-line transport the file path is the media argument of the command, with the
  HTTP transport the data URL itself is the media field of the request body.
\<close>

theorem sendViaOpenClaw_data_url:
  assumes "media msg = Some m" and "startsWith m ''data:''"
    and "writeFileSync_ok w (tempFile_of w m)"
  shows "fst (sendViaOpenClaw w msg True) =
           [WriteFileSync (tempFile_of w m) (node_base64_decode (strip_data_url_prefix m)),
            ExecAsync (cli_command msg (Some (tempFile_of w m)))]
       \<and> fst (sendViaOpenClaw w msg False) =
           [WriteFileSync (tempFile_of w m) (node_base64_decode (strip_data_url_prefix m)),
            HttpPostGateway (gateway_url w) (gateway_headers w) msg]"
  using assms
  by (simp add: sendViaOpenClaw_def dispatch_def Let_def split: option.split prod.split)

theorem sendViaOpenClaw_data_url_witness:
  "media example_message = Some ''data:image/jpeg;base64,QUJD''
   \<and> startsWith ''data:image/jpeg;base64,QUJD'' ''data:''
   \<and> fst (sendViaOpenClaw (example_world None one_image) example_message True) =
       [WriteFileSync ''/tmp/ono-selfie-1700000000000.jpeg'' [65, 66, 67],
        ExecAsync (cli_command example_message (Some ''/tmp/ono-selfie-1700000000000.jpeg''))]"
proof -
  have m: "media example_message = Some ''data:image/jpeg;base64,QUJD''"
    by (simp add: example_message_def)
  have s: "startsWith ''data:image/jpeg;base64,QUJD'' ''data:''"
    by (simp add: startsWith_def)
  have k: "writeFileSync_ok (example_world None one_image)
      (tempFile_of (example_world None one_image) ''data:image/jpeg;base64,QUJD'')"
    by (simp add: example_world_def succeeds_def)
  show ?thesis
    using sendViaOpenClaw_data_url [OF m s k] m s
    by (simp only: example_tempFile decode_example simp_thms)
qed

lemma generateImage_no_key:
  "GEMINI_API_KEY w = None \<or> GEMINI_API_KEY w = Some [] \<Longrightarrow>
   generateImage w input = ([], Inl ApiKeyNotSet)"
  by (auto simp: generateImage_def or_else_def)

text \<open>
  C6. Without \<open>GEMINI_API_KEY\<close> (unset or empty) the pipeline fails with the
  configuration error, the process exits with status 1, and the trace is empty: no HTTP
  request has been issued. The same holds for the shell script.
\<close>

theorem missing_api_key:
  "(GEMINI_API_KEY w = None \<or> GEMINI_API_KEY w = Some [] \<longrightarrow>
      generateImage w input = ([], Inl ApiKeyNotSet)
      \<and> generateAndSend w options = ([], Inl ApiKeyNotSet)
      \<and> main w args = ([], 1))
   \<and> (sh_GEMINI_API_KEY sw = [] \<longrightarrow> ono_selfie_sh sw args = ([], 1))"
proof (intro conjI impI)
  assume k: "GEMINI_API_KEY w = None \<or> GEMINI_API_KEY w = Some []"
  show "generateImage w input = ([], Inl ApiKeyNotSet)"
    by (rule generateImage_no_key [OF k])
  show g: "generateAndSend w options = ([], Inl ApiKeyNotSet)"
    by (simp add: generateAndSend_def generateImage_no_key [OF k])
  have "\<And>options. generateAndSend w options = ([], Inl ApiKeyNotSet)"
    by (simp add: generateAndSend_def generateImage_no_key [OF k])
  then show "main w args = ([], 1)"
    by (simp add: main_def)
next
  assume "sh_GEMINI_API_KEY sw = []"
  then show "ono_selfie_sh sw args = ([], 1)"
    by (simp add: ono_selfie_sh_def)
qed

theorem missing_api_key_witness:
  "GEMINI_API_KEY (example_world None one_image) = None
   \<and> generateAndSend (example_world None one_image) example_options = ([], Inl ApiKeyNotSet)
   \<and> main (example_world None one_image) [''a selfie'', ''#general''] = ([], 1)
   \<and> sh_GEMINI_API_KEY (example_shell [] ''QUJD'') = []
   \<and> ono_selfie_sh (example_shell [] ''QUJD'') [''a selfie'', ''#general''] = ([], 1)"
proof -
  have a: "GEMINI_API_KEY (example_world None one_image) = None"
    by (simp add: example_world_def)
  have b: "sh_GEMINI_API_KEY (example_shell [] ''QUJD'') = []"
    by (simp add: example_shell_def)
  show ?thesis
    using a b
      missing_api_key [of "example_world None one_image" example_input example_options
        "[''a selfie'', ''#general'']" "example_shell [] ''QUJD''"]
    by blast
qed

lemma generateImage_with_key:
  assumes "GEMINI_API_KEY w = Some k" "k \<noteq> []"
    and "fetch_generate w (endpoint k) (payload input) = Some r"
  shows "generateImage w input =
     ([HttpPostGenerate (endpoint k) (payload input)],
      if \<not> ok r then Inl (ImageGenerationFailed (status r) (statusText r) (body_text r))
      else case body_json r of
             None \<Rightarrow> Inl JsonRejected
           | Some d \<Rightarrow>
               (case predictions d of
                  None \<Rightarrow> Inl NoPredictions
                | Some [] \<Rightarrow> Inl NoPredictions
                | Some (p # ps) \<Rightarrow>
                    Inr (''data:''
                         @ or_else (mimeType p)
                             (if output_format input = Some ''png'' then ''image/png''
                              else ''image/jpeg'')
                         @ '';base64,'' @ template (bytesBase64Encoded p))))"
  using assms
  by (simp add: generateImage_def or_else_def Let_def split: option.split list.split)

text \<open>
  C7. A generation response whose \<open>predictions\<close> field is missing or an empty array
  makes \<open>generateImage\<close> fail (with \<open>No predictions returned\<close> on a success status,
  with the status error otherwise), and the run ends there: the only effect of the whole
  invocation is the generation request, no file is written.
\<close>

theorem no_predictions_fails:
  assumes "GEMINI_API_KEY w = Some k" and "k \<noteq> []"
    and "fetch_generate w (endpoint k) (payload input) = Some r"
    and "body_json r = Some d"
    and "predictions d = None \<or> predictions d = Some []"
  shows "generateImage w input =
           ([HttpPostGenerate (endpoint k) (payload input)],
            Inl (if ok r then NoPredictions
                 else ImageGenerationFailed (status r) (statusText r) (body_text r)))
       \<and> (input = image_input options \<longrightarrow>
            generateAndSend w options =
              ([HttpPostGenerate (endpoint k) (payload input)],
               Inl (if ok r then NoPredictions
                    else ImageGenerationFailed (status r) (statusText r) (body_text r))))"
proof -
  have g: "generateImage w input =
           ([HttpPostGenerate (endpoint k) (payload input)],
            Inl (if ok r then NoPredictions
                 else ImageGenerationFailed (status r) (statusText r) (body_text r)))"
    using assms(4,5) by (auto simp: generateImage_with_key [OF assms(1-3)])
  have "generateAndSend w options =
           ([HttpPostGenerate (endpoint k) (payload input)],
            Inl (if ok r then NoPredictions
                 else ImageGenerationFailed (status r) (statusText r) (body_text r)))"
    if "input = image_input options"
    using g unfolding that by (simp add: generateAndSend_def)
  with g show ?thesis by blast
qed

theorem no_predictions_fails_witness:
  "GEMINI_API_KEY (example_world (Some ''key'') no_predictions) = Some ''key''
   \<and> predictions no_predictions = Some []
   \<and> generateAndSend (example_world (Some ''key'') no_predictions) example_options =
       ([HttpPostGenerate (endpoint ''key'') (payload (image_input example_options))],
        Inl NoPredictions)"
proof -
  let ?w = "example_world (Some ''key'') no_predictions"
  let ?r = "\<lparr> ok = True, status = 200, statusText = ''OK'', body_text = [],
              body_json = Some no_predictions \<rparr>"
  have a: "GEMINI_API_KEY ?w = Some ''key''" by (simp add: example_world_def)
  have b: "''key'' \<noteq> []" by simp
  have c: "fetch_generate ?w (endpoint ''key'') (payload (image_input example_options)) = Some ?r"
    by (simp add: example_world_def reply_with_def)
  have d: "body_json ?r = Some no_predictions" by simp
  have e: "predictions no_predictions = None \<or> predictions no_predictions = Some []"
    by (simp add: no_predictions_def)
  have f: "predictions no_predictions = Some []" by (simp add: no_predictions_def)
  show ?thesis
    using no_predictions_fails [OF a b c d e, of example_options] a f by simp
qed

lemma generateImage_Inr:
  assumes "generateImage w input = (t, Inr url)"
  shows "t = [HttpPostGenerate (endpoint (or_else (GEMINI_API_KEY w) [])) (payload input)]
    \<and> startsWith url ''data:''"
  using assms
  by (auto simp: generateImage_def Let_def startsWith_def
      split: if_splits option.splits list.splits)

lemma dispatch_trace:
  "\<exists>e. fst (dispatch w msg useCLI mediaArg) = [e] \<and> is_dispatch e"
  by (auto simp: dispatch_def Let_def split: option.split)

lemma sendViaOpenClaw_trace:
  assumes "media msg = Some m" "startsWith m ''data:''"
  shows "fst (sendViaOpenClaw w msg useCLI) =
      (if writeFileSync_ok w (tempFile_of w m)
       then WriteFileSync (tempFile_of w m) (node_base64_decode (strip_data_url_prefix m))
            # fst (dispatch w msg useCLI (Some (tempFile_of w m)))
       else [WriteFileSync (tempFile_of w m) (node_base64_decode (strip_data_url_prefix m))])"
  using assms by (simp add: sendViaOpenClaw_def Let_def split: prod.split)

lemma generateAndSend_trace:
  "fst (generateAndSend w options) =
     (case generateImage w (image_input options) of
        (t, Inl e) \<Rightarrow> t
      | (t, Inr url) \<Rightarrow>
          t @ fst (sendViaOpenClaw w (openclaw_message options url)
                     (case useOpenClawCLI options of None \<Rightarrow> True | Some b \<Rightarrow> b)))"
  by (simp add: generateAndSend_def split: prod.split sum.split)

lemma generateImage_no_dispatch:
  "e \<in> set (fst (generateImage w input)) \<Longrightarrow> \<not> is_dispatch e"
  by (auto simp: generateImage_def Let_def split: if_splits option.splits list.splits)

text \<open>
  C8. Whenever a dispatch event (the command or the gateway request) occurs in a run of
  \<open>generateAndSend\<close>, the generation had returned its media reference, the write of the
  decoded bytes had succeeded, and the trace is exactly: generation request, write of the
  temporary file, dispatch.
\<close>

theorem dispatch_after_materialization:
  assumes "e \<in> set (fst (generateAndSend w options))" and "is_dispatch e"
  shows "\<exists>url. generateImage w (image_input options) =
             ([HttpPostGenerate (endpoint (or_else (GEMINI_API_KEY w) []))
                 (payload (image_input options))], Inr url)
           \<and> writeFileSync_ok w (tempFile_of w url)
           \<and> fst (generateAndSend w options) =
               [HttpPostGenerate (endpoint (or_else (GEMINI_API_KEY w) []))
                  (payload (image_input options)),
                WriteFileSync (tempFile_of w url)
                  (node_base64_decode (strip_data_url_prefix url)),
                e]"
proof (cases "generateImage w (image_input options)")
  case (Pair t res)
  show ?thesis
  proof (cases res)
    case (Inl err)
    then have "fst (generateAndSend w options) = fst (generateImage w (image_input options))"
      using Pair by (simp add: generateAndSend_trace)
    then show ?thesis using assms generateImage_no_dispatch by metis
  next
    case (Inr url)
    let ?req = "HttpPostGenerate (endpoint (or_else (GEMINI_API_KEY w) []))
                  (payload (image_input options))"
    let ?wr = "WriteFileSync (tempFile_of w url) (node_base64_decode (strip_data_url_prefix url))"
    let ?cli = "case useOpenClawCLI options of None \<Rightarrow> True | Some b \<Rightarrow> b"
    have g: "generateImage w (image_input options) = ([?req], Inr url)"
      and d: "startsWith url ''data:''"
      using generateImage_Inr [of w "image_input options" t url] Pair Inr by simp_all
    have m: "media (openclaw_message options url) = Some url"
      by (simp add: openclaw_message_def)
    have tr: "fst (generateAndSend w options) =
        ?req # fst (sendViaOpenClaw w (openclaw_message options url) ?cli)"
      by (simp add: generateAndSend_trace g)
    show ?thesis
    proof (cases "writeFileSync_ok w (tempFile_of w url)")
      case False
      then have "fst (generateAndSend w options) = [?req, ?wr]"
        by (simp add: tr sendViaOpenClaw_trace [OF m d])
      then have False using assms by auto
      then show ?thesis ..
    next
      case True
      obtain e' where e': "fst (dispatch w (openclaw_message options url) ?cli
          (Some (tempFile_of w url))) = [e']"
        using dispatch_trace by blast
      have "fst (generateAndSend w options) = [?req, ?wr, e']"
        using True by (simp add: tr sendViaOpenClaw_trace [OF m d] e')
      moreover from this have "e = e'" using assms by auto
      ultimately show ?thesis using g True by blast
    qed
  qed
qed

theorem dispatch_after_materialization_witness:
  "ExecAsync (cli_command (openclaw_message example_options ''data:image/jpeg;base64,QUJD'')
       (Some ''/tmp/ono-selfie-1700000000000.jpeg''))
     \<in> set (fst (generateAndSend (example_world (Some ''key'') one_image) example_options))
   \<and> fst (generateAndSend (example_world (Some ''key'') one_image) example_options) =
       [HttpPostGenerate (endpoint ''key'') (payload (image_input example_options)),
        WriteFileSync ''/tmp/ono-selfie-1700000000000.jpeg'' [65, 66, 67],
        ExecAsync (cli_command (openclaw_message example_options ''data:image/jpeg;base64,QUJD'')
          (Some ''/tmp/ono-selfie-1700000000000.jpeg''))]"
proof -
  let ?w = "example_world (Some ''key'') one_image"
  let ?e = "ExecAsync (cli_command (openclaw_message example_options ''data:image/jpeg;base64,QUJD'')
       (Some ''/tmp/ono-selfie-1700000000000.jpeg''))"
  have gi: "generateImage ?w (image_input example_options) =
      ([HttpPostGenerate (endpoint ''key'') (payload (image_input example_options))],
       Inr ''data:image/jpeg;base64,QUJD'')"
    by (simp add: generateImage_def example_defs one_image_def or_else_def template_def Let_def
        image_input_def example_options_def)
  have m: "media (openclaw_message example_options ''data:image/jpeg;base64,QUJD'')
      = Some ''data:image/jpeg;base64,QUJD''"
    by (simp add: openclaw_message_def)
  have d: "startsWith ''data:image/jpeg;base64,QUJD'' ''data:''" by (simp add: startsWith_def)
  have ok: "writeFileSync_ok ?w ''/tmp/ono-selfie-1700000000000.jpeg''"
    by (simp add: example_world_def succeeds_def)
  have cli: "(case useOpenClawCLI example_options of None \<Rightarrow> True | Some b \<Rightarrow> b) = True"
    by (simp add: example_options_def)
  have "fst (generateAndSend ?w example_options) =
       [HttpPostGenerate (endpoint ''key'') (payload (image_input example_options)),
        WriteFileSync ''/tmp/ono-selfie-1700000000000.jpeg'' [65, 66, 67], ?e]"
    using ok
    by (simp add: generateAndSend_trace gi cli sendViaOpenClaw_trace [OF m d] example_tempFile
        decode_example dispatch_def)
  then have mem: "?e \<in> set (fst (generateAndSend ?w example_options))" by simp
  have "is_dispatch ?e" by simp
  from dispatch_after_materialization [OF mem this]
  obtain url where u: "generateImage ?w (image_input example_options) =
        ([HttpPostGenerate (endpoint (or_else (GEMINI_API_KEY ?w) []))
            (payload (image_input example_options))], Inr url)"
      "fst (generateAndSend ?w example_options) =
        [HttpPostGenerate (endpoint (or_else (GEMINI_API_KEY ?w) []))
           (payload (image_input example_options)),
         WriteFileSync (tempFile_of ?w url) (node_base64_decode (strip_data_url_prefix url)), ?e]"
    by blast
  have key: "or_else (GEMINI_API_KEY ?w) [] = ''key''"
    by (simp add: example_world_def or_else_def)
  have url: "url = ''data:image/jpeg;base64,QUJD''" using u(1) gi by simp
  show ?thesis
    using mem u(2) by (simp only: url key example_tempFile decode_example simp_thms)
qed

text \<open>
  C9. For every byte sequence, the Base64 text of the bytes decodes to the same bytes in
  the materializer: through the data URL that \<open>generateImage\<close> builds for either output
  format and the prefix removal and lenient decoder of \<open>sendViaOpenClaw\<close>, and through
  \<open>echo | base64 --decode\<close> of the shell script.
\<close>

theorem base64_round_trip:
  "node_base64_decode (strip_data_url_prefix (''data:image/jpeg;base64,'' @ base64_encode bs)) = bs
   \<and> node_base64_decode (strip_data_url_prefix (''data:image/png;base64,'' @ base64_encode bs)) = bs
   \<and> gnu_base64_decode (base64_encode bs @ [newline]) = Some bs"
  by (simp only: strip_jpeg strip_png node_round_trip gnu_round_trip simp_thms)

text \<open>
  C10. When \<open>output_format\<close> is anything but the exact text \<open>png\<close> (absent
  included), the request payload asks for \<open>image/jpeg\<close>, and a response without
  \<open>mimeType\<close> gives a data URL of type \<open>image/jpeg\<close>; \<open>image/png\<close> is requested
  exactly when \<open>output_format\<close> is \<open>png\<close>.
\<close>

theorem output_format_mime:
  "(output_format input \<noteq> Some ''png'' \<longrightarrow>
      outputOptions_mimeType (payload input) = ''image/jpeg'')
   \<and> (outputOptions_mimeType (payload input) = ''image/png'' \<longleftrightarrow>
      output_format input = Some ''png'')
   \<and> (GEMINI_API_KEY w = Some k \<and> k \<noteq> []
      \<and> fetch_generate w (endpoint k) (payload input) = Some r \<and> ok r
      \<and> body_json r = Some d \<and> predictions d = Some (p # ps) \<and> mimeType p = None
      \<longrightarrow> generateImage w input =
           ([HttpPostGenerate (endpoint k) (payload input)],
            Inr (''data:''
                 @ (if output_format input = Some ''png'' then ''image/png'' else ''image/jpeg'')
                 @ '';base64,'' @ template (bytesBase64Encoded p))))"
proof (intro conjI impI)
  show "outputOptions_mimeType (payload input) = ''image/jpeg''"
    if "output_format input \<noteq> Some ''png''"
    using that by (simp add: payload_def)
  show "outputOptions_mimeType (payload input) = ''image/png'' \<longleftrightarrow>
      output_format input = Some ''png''"
    by (simp add: payload_def)
  assume a: "GEMINI_API_KEY w = Some k \<and> k \<noteq> []
      \<and> fetch_generate w (endpoint k) (payload input) = Some r \<and> ok r
      \<and> body_json r = Some d \<and> predictions d = Some (p # ps) \<and> mimeType p = None"
  then have k: "GEMINI_API_KEY w = Some k" "k \<noteq> []"
    "fetch_generate w (endpoint k) (payload input) = Some r" by simp_all
  show "generateImage w input =
           ([HttpPostGenerate (endpoint k) (payload input)],
            Inr (''data:''
                 @ (if output_format input = Some ''png'' then ''image/png'' else ''image/jpeg'')
                 @ '';base64,'' @ template (bytesBase64Encoded p)))"
    using a by (simp add: generateImage_with_key [OF k] or_else_def)
qed

theorem output_format_mime_witness:
  "output_format example_input \<noteq> Some ''png''
   \<and> outputOptions_mimeType (payload example_input) = ''image/jpeg''
   \<and> generateImage (example_world (Some ''key'') one_image) example_input =
       ([HttpPostGenerate (endpoint ''key'') (payload example_input)],
        Inr ''data:image/jpeg;base64,QUJD'')"
proof -
  let ?w = "example_world (Some ''key'') one_image"
  let ?r = "\<lparr> ok = True, status = 200, statusText = ''OK'', body_text = [],
              body_json = Some one_image \<rparr>"
  let ?p = "\<lparr> bytesBase64Encoded = Some ''QUJD'', mimeType = None \<rparr>"
  have f: "output_format example_input \<noteq> Some ''png''" by (simp add: example_input_def)
  have h: "GEMINI_API_KEY ?w = Some ''key'' \<and> ''key'' \<noteq> []
      \<and> fetch_generate ?w (endpoint ''key'') (payload example_input) = Some ?r \<and> ok ?r
      \<and> body_json ?r = Some one_image \<and> predictions one_image = Some (?p # [])
      \<and> mimeType ?p = None"
    by (simp add: example_world_def reply_with_def one_image_def)
  show ?thesis
    using f h output_format_mime [of example_input ?w "''key''" ?r one_image ?p "[]"]
    by (simp add: template_def)
qed

lemma sh_missing_payload:
  assumes "jq_bytesBase64Encoded sw (curl sw (endpoint (sh_GEMINI_API_KEY sw)) body) = ''null''
         \<or> jq_bytesBase64Encoded sw (curl sw (endpoint (sh_GEMINI_API_KEY sw)) body) = []"
    and "body = \<lparr> instances_prompt =
            GEN_PROMPT (select_mode (locale_fold sw) (param_default (positional args 2) ''auto'')
                          (positional args 0))
              (positional args 0),
          sampleCount = 1, aspectRatio = ''1:1'', outputOptions_mimeType = ''image/jpeg'' \<rparr>"
  shows "snd (ono_selfie_sh sw args) = 1
       \<and> (\<forall>e\<in>set (fst (ono_selfie_sh sw args)). \<not> is_dispatch e)"
  using assms by (auto simp: ono_selfie_sh_def Let_def)

lemma sh_trace_shapes:
  "is_dispatch e \<Longrightarrow> e \<in> set (fst (ono_selfie_sh sw args)) \<Longrightarrow>
   \<exists>url body file text. fst (ono_selfie_sh sw args) =
      [HttpPostGenerate url body, Base64DecodeTo file text, e]"
  by (auto simp: ono_selfie_sh_def Let_def split: if_splits)

end
